theory Spec2Isabelle
  imports
    Complex_Main
    "HOL-Library.Word"
    "HOL-Library.Signed_Division"
    "HOL-Library.Log_Nat"
    "HOL-Library.Sublist"
begin

section \<open>The collection utilities of \<^verbatim>\<open>utils/algorithm.hpp\<close>\<close>

text \<open>
  The header \<^verbatim>\<open>samples/header-only/include/utils/algorithm.hpp\<close> declares three
  templates over \<^verbatim>\<open>std::vector<T>\<close>: \<^verbatim>\<open>filter\<close>, \<^verbatim>\<open>sum\<close> and \<^verbatim>\<open>average\<close>.
  A vector is a list. Every operation receives its vector as \<^verbatim>\<open>const std::vector<T>&\<close>,
  a reference to an object of the caller; the embedding therefore threads a state that
  holds this object (field \<open>vec\<close>) through every operation and returns it, so that what
  an operation leaves in the caller's vector is a value one can state theorems about.
\<close>

subsection \<open>The caller's vector\<close>

record 'a frame =
  vec :: "'a list"  \<comment> \<open>the object the parameter \<^verbatim>\<open>vec\<close> refers to\<close>

subsection \<open>\<^verbatim>\<open>utils::filter\<close>\<close>

text \<open>
  \<^verbatim>\<open>
  template<typename T>
  std::vector<T> filter(const std::vector<T>& vec, bool (*predicate)(const T&)) {
      std::vector<T> result;
      for (const auto& item : vec) {
          if (predicate(item)) {
              result.push_back(item);
          }
      }
      return result;
  }
  \<close>
  The range-based \<^verbatim>\<open>for\<close> walks an iterator from \<^verbatim>\<open>vec.begin()\<close> to \<^verbatim>\<open>vec.end()\<close>;
  \<open>pos\<close> is its offset from \<^verbatim>\<open>begin()\<close>. \<open>result\<close> is the local vector, to which
  \<^verbatim>\<open>push_back\<close> appends at the end. \<open>calls\<close> is a ghost field: the log of the
  invocations of \<^verbatim>\<open>predicate\<close>, oldest first, each entry the offset of the element the
  argument refers to and the element itself. The predicate is the pure function the
  specification asks for, so a call yields a truth value and changes nothing else.
\<close>

record 'a filter_state = "'a frame" +
  pos :: nat
  result :: "'a list"
  calls :: "(nat \<times> 'a) list"

definition invoke ::
  "('a \<Rightarrow> bool) \<Rightarrow> nat \<Rightarrow> 'a filter_state \<Rightarrow> bool \<times> 'a filter_state" where
  "invoke predicate i s =
     (predicate (vec s ! i), s\<lparr>calls := calls s @ [(i, vec s ! i)]\<rparr>)"

definition push_back :: "'a \<Rightarrow> 'a filter_state \<Rightarrow> 'a filter_state" where
  "push_back item s = s\<lparr>result := result s @ [item]\<rparr>"

definition filter_body :: "('a \<Rightarrow> bool) \<Rightarrow> 'a filter_state \<Rightarrow> 'a filter_state" where
  "filter_body predicate s =
     (let item = vec s ! pos s;
          (keep, s1) = invoke predicate (pos s) s;
          s2 = (if keep then push_back item s1 else s1)
      in s2\<lparr>pos := Suc (pos s2)\<rparr>)"

function filter_loop :: "('a \<Rightarrow> bool) \<Rightarrow> 'a filter_state \<Rightarrow> 'a filter_state" where
  "filter_loop predicate s =
     (if pos s < length (vec s) then filter_loop predicate (filter_body predicate s)
      else s)"
  by pat_completeness auto
termination
  by (relation "measure (\<lambda>(predicate, s). length (vec s) - pos s)")
    (auto simp add: filter_body_def invoke_def push_back_def)

declare filter_loop.simps [simp del]

definition filter_run :: "('a \<Rightarrow> bool) \<Rightarrow> 'a list \<Rightarrow> 'a filter_state" where
  "filter_run predicate v =
     filter_loop predicate \<lparr>vec = v, pos = 0, result = [], calls = []\<rparr>"

definition filter_vec :: "('a \<Rightarrow> bool) \<Rightarrow> 'a list \<Rightarrow> 'a list" where
  "filter_vec predicate v = result (filter_run predicate v)"

subsection \<open>\<^verbatim>\<open>utils::sum\<close>\<close>

text \<open>
  \<^verbatim>\<open>
  template<typename T>
  inline T sum(const std::vector<T>& vec) {
      return std::accumulate(vec.begin(), vec.end(), T{0});
  }
  \<close>
  \<^verbatim>\<open>std::accumulate(first, last, init)\<close> is the loop
  \<^verbatim>\<open>for (; first != last; ++first) init = std::move(init) + *first; return init;\<close>.
  The iterators are offsets into the vector they point into; \<^verbatim>\<open>first\<close> never passes
  \<^verbatim>\<open>last\<close>, so \<^verbatim>\<open>first != last\<close> is \<open>first < last\<close>. The element type is any type
  with a zero (\<^verbatim>\<open>T{0}\<close>) and an addition, whose own arithmetic is used: on a machine
  integer \<open>'w word\<close> the addition wraps around.
\<close>

function accumulate ::
  "nat \<Rightarrow> nat \<Rightarrow> 'a::plus \<Rightarrow> ('a, 'm) frame_scheme \<Rightarrow> 'a \<times> ('a, 'm) frame_scheme" where
  "accumulate first lst init s =
     (if first < lst then accumulate (Suc first) lst (init + vec s ! first) s
      else (init, s))"
  by pat_completeness auto
termination
  by (relation "measure (\<lambda>(first, lst, init, s). lst - first)") auto

declare accumulate.simps [simp del]

definition sum_run ::
  "('a::{zero,plus}, 'm) frame_scheme \<Rightarrow> 'a \<times> ('a, 'm) frame_scheme" where
  "sum_run s = accumulate 0 (length (vec s)) 0 s"

definition sum_vec :: "'a::{zero,plus} list \<Rightarrow> 'a" where
  "sum_vec v = fst (sum_run \<lparr>vec = v\<rparr>)"

subsection \<open>The type \<^verbatim>\<open>double\<close>\<close>

text \<open>
  \<^verbatim>\<open>average\<close> returns a \<^verbatim>\<open>double\<close>, the IEEE 754 binary64 format: a finite value is
  \<open>\<plusminus> m \<times> 2\<^sup>e\<close> with \<open>m < 2\<^sup>5\<^sup>3\<close> and \<open>-1074 \<le> e \<le> 971\<close>. A finite double other than
  negative zero is represented by its value, a rational number (\<open>Finite 0\<close> is \<open>+0.0\<close>).
  Conversions and arithmetic round to the nearest double, ties to the one with an even
  significand, the default rounding mode.
\<close>

datatype double = Finite rat | NegZero | PosInf | NegInf | NaN

text \<open>Rounding a rational to the nearest integer, ties to even.\<close>

definition round_half_even :: "rat \<Rightarrow> int" where
  "round_half_even r =
     (let f = \<lfloor>r\<rfloor>; d = r - of_int f
      in if d < 1 / 2 then f
         else if 1 / 2 < d then f + 1
         else if even f then f else f + 1)"

text \<open>
  The binary exponent of a positive rational \<open>a\<close>, the \<open>e\<close> with \<open>2\<^sup>e \<le> a < 2\<^sup>e\<^sup>+\<^sup>1\<close>: the
  bit lengths of numerator and denominator give it up to one, and a comparison decides.
\<close>

definition ilog2 :: "rat \<Rightarrow> int" where
  "ilog2 a =
     (let (n, d) = quotient_of a;
          k = int (floorlog 2 (nat n)) - int (floorlog 2 (nat d))
      in if 2 powi k \<le> a then k else k - 1)"

text \<open>
  Rounding to binary64. The unit in the last place of a value with binary exponent \<open>e\<close> is
  \<open>2\<^sup>e\<^sup>-\<^sup>5\<^sup>2\<close>; below \<open>2\<^sup>-\<^sup>1\<^sup>0\<^sup>2\<^sup>2\<close> the doubles are subnormal, with unit \<open>2\<^sup>-\<^sup>1\<^sup>0\<^sup>7\<^sup>4\<close>. A value
  that rounds to \<open>2\<^sup>1\<^sup>0\<^sup>2\<^sup>4\<close> or more overflows to an infinity, one that rounds to no unit
  underflows to the zero of its sign.
\<close>

definition round_double :: "rat \<Rightarrow> double" where
  "round_double q =
     (if q = 0 then Finite 0
      else
        let a = \<bar>q\<bar>;
            e = max (ilog2 a) (- 1022);
            u = 2 powi (e - 52);
            m = round_half_even (a / u);
            v = of_int m * u
        in if 2 powi 1024 \<le> v then (if 0 < q then PosInf else NegInf)
           else if m = 0 then (if 0 < q then Finite 0 else NegZero)
           else Finite (if 0 < q then v else - v))"

fun is_zero :: "double \<Rightarrow> bool" where
  "is_zero (Finite q) = (q = 0)"
| "is_zero NegZero = True"
| "is_zero _ = False"

fun is_inf :: "double \<Rightarrow> bool" where
  "is_inf PosInf = True"
| "is_inf NegInf = True"
| "is_inf _ = False"

fun sign_bit :: "double \<Rightarrow> bool" where
  "sign_bit (Finite q) = (q < 0)"
| "sign_bit NegZero = True"
| "sign_bit NegInf = True"
| "sign_bit _ = False"

fun value_of :: "double \<Rightarrow> rat" where
  "value_of (Finite q) = q"
| "value_of _ = 0"

text \<open>
  The operator \<^verbatim>\<open>/\<close> on doubles, as IEEE 754 defines it: a NaN operand, \<open>0/0\<close> and
  \<open>\<infinity>/\<infinity>\<close> give NaN; the sign of any other quotient is the exclusive or of the operands'
  signs; a nonzero finite value over a zero, and an infinity over a finite value, is an
  infinity; a zero over a nonzero value, and a finite value over an infinity, is a zero;
  otherwise the exact quotient is rounded.
\<close>

definition fdiv :: "double \<Rightarrow> double \<Rightarrow> double" where
  "fdiv x y =
     (if x = NaN \<or> y = NaN then NaN
      else if (is_zero x \<and> is_zero y) \<or> (is_inf x \<and> is_inf y) then NaN
      else
        let negative = (sign_bit x \<noteq> sign_bit y)
        in if is_inf x \<or> is_zero y then (if negative then NegInf else PosInf)
           else if is_zero x \<or> is_inf y then (if negative then NegZero else Finite 0)
           else round_double (value_of x / value_of y))"

text \<open>
  The conversion of \<^verbatim>\<open>vec.size()\<close>, a \<^verbatim>\<open>std::size_t\<close>, to \<^verbatim>\<open>double\<close> (the usual arithmetic
  conversions of \<^verbatim>\<open>double / std::size_t\<close>), and \<^verbatim>\<open>static_cast<double>\<close> on a 32-bit
  \<^verbatim>\<open>int\<close>, the element type of the sample program.
\<close>

definition size_to_double :: "nat \<Rightarrow> double" where
  "size_to_double n = round_double (of_nat n)"

definition int_to_double :: "32 word \<Rightarrow> double" where
  "int_to_double i = round_double (of_int (sint i))"

subsection \<open>\<^verbatim>\<open>utils::average\<close>\<close>

text \<open>
  \<^verbatim>\<open>
  template<typename T>
  inline double average(const std::vector<T>& vec) {
      if (vec.empty()) return 0.0;
      return static_cast<double>(sum(vec)) / vec.size();
  }
  \<close>
  \<^verbatim>\<open>static_cast<double>\<close> depends on the element type and is the parameter \<open>to_double\<close>.
  \<open>divisions\<close> is a ghost field: the log of the divisions executed, each entry the
  dividend and the divisor.
\<close>

record 'a average_state = "'a frame" +
  divisions :: "(double \<times> double) list"

definition divide ::
  "double \<Rightarrow> double \<Rightarrow> 'a average_state \<Rightarrow> double \<times> 'a average_state" where
  "divide x y s = (fdiv x y, s\<lparr>divisions := divisions s @ [(x, y)]\<rparr>)"

definition average_run ::
  "('a::{zero,plus} \<Rightarrow> double) \<Rightarrow> 'a average_state \<Rightarrow> double \<times> 'a average_state" where
  "average_run to_double s =
     (if vec s = [] then (Finite 0, s)
      else
        let (total, s1) = sum_run s
        in divide (to_double total) (size_to_double (length (vec s1))) s1)"

definition average :: "('a::{zero,plus} \<Rightarrow> double) \<Rightarrow> 'a list \<Rightarrow> double" where
  "average to_double v = fst (average_run to_double \<lparr>vec = v, divisions = []\<rparr>)"

subsection \<open>The sample program\<close>

text \<open>
  \<^verbatim>\<open>main.cpp\<close> works on \<^verbatim>\<open>std::vector<int> numbers = {1, 2, 3, 4, 5, 6, 7, 8, 9, 10}\<close>
  and keeps the elements with \<^verbatim>\<open>n % 2 == 0\<close>, where \<^verbatim>\<open>%\<close> is the remainder of the
  division that truncates towards zero.
\<close>

definition numbers :: "32 word list" where
  "numbers = [1, 2, 3, 4, 5, 6, 7, 8, 9, 10]"

definition is_even :: "32 word \<Rightarrow> bool" where
  "is_even n = (sint n smod 2 = 0)"

section \<open>Properties of \<^verbatim>\<open>filter\<close>\<close>

lemma filter_body_vec [simp]: "vec (filter_body predicate s) = vec s"
  by (simp add: filter_body_def invoke_def push_back_def)

lemma filter_body_pos [simp]: "pos (filter_body predicate s) = Suc (pos s)"
  by (simp add: filter_body_def invoke_def push_back_def)

lemma filter_body_result:
  "pos s < length (vec s) \<Longrightarrow>
   result (filter_body predicate s) =
     result s @ (if predicate (vec s ! pos s) then [vec s ! pos s] else [])"
  by (simp add: filter_body_def invoke_def push_back_def)

lemma filter_body_calls:
  "calls (filter_body predicate s) = calls s @ [(pos s, vec s ! pos s)]"
  by (simp add: filter_body_def invoke_def push_back_def)

lemma filter_loop_vec: "vec (filter_loop predicate s) = vec s"
proof (induction predicate s rule: filter_loop.induct)
  case (1 predicate s)
  show ?case
  proof (cases "pos s < length (vec s)")
    case True
    with "1" show ?thesis by (simp add: filter_loop.simps [of predicate s])
  next
    case False
    then show ?thesis by (simp add: filter_loop.simps [of predicate s])
  qed
qed

lemma filter_loop_result:
  "result (filter_loop predicate s) =
     result s @ filter predicate (drop (pos s) (vec s))"
proof (induction predicate s rule: filter_loop.induct)
  case (1 predicate s)
  show ?case
  proof (cases "pos s < length (vec s)")
    case True
    then have step: "drop (pos s) (vec s) = vec s ! pos s # drop (Suc (pos s)) (vec s)"
      by (simp add: Cons_nth_drop_Suc)
    from True "1" show ?thesis
      by (simp add: filter_loop.simps [of predicate s] filter_body_result step)
  next
    case False
    then show ?thesis by (simp add: filter_loop.simps [of predicate s])
  qed
qed

lemma filter_loop_calls:
  "calls (filter_loop predicate s) =
     calls s @ zip [pos s..<length (vec s)] (drop (pos s) (vec s))"
proof (induction predicate s rule: filter_loop.induct)
  case (1 predicate s)
  show ?case
  proof (cases "pos s < length (vec s)")
    case True
    then have step: "drop (pos s) (vec s) = vec s ! pos s # drop (Suc (pos s)) (vec s)"
      by (simp add: Cons_nth_drop_Suc)
    from True have range: "[pos s..<length (vec s)] = pos s # [Suc (pos s)..<length (vec s)]"
      by (simp add: upt_conv_Cons)
    from True "1" show ?thesis
      by (simp add: filter_loop.simps [of predicate s] filter_body_calls step range)
  next
    case False
    then show ?thesis by (simp add: filter_loop.simps [of predicate s])
  qed
qed

lemma filter_vec_filter: "filter_vec predicate v = filter predicate v"
  by (simp add: filter_vec_def filter_run_def filter_loop_result)

text \<open>
  Claim C1. For every vector \<open>S\<close> and predicate \<open>P\<close>, \<^verbatim>\<open>filter(S, P)\<close> is the list of
  the elements of \<open>S\<close> that satisfy \<open>P\<close>, in the order of \<open>S\<close>: it is what the list
  function \<^const>\<open>filter\<close> computes, hence a subsequence of \<open>S\<close> whose elements are those of
  \<open>S\<close> satisfying \<open>P\<close>, each as often as in \<open>S\<close>, and it is no longer than \<open>S\<close>.
\<close>

theorem filter_exactly_the_elements_satisfying:
  "filter_vec P S = filter P S
   \<and> subseq (filter_vec P S) S
   \<and> set (filter_vec P S) = {x \<in> set S. P x}
   \<and> count_list (filter_vec P S) x = (if P x then count_list S x else 0)
   \<and> length (filter_vec P S) \<le> length S"
proof -
  have "count_list (filter P S) x = (if P x then count_list S x else 0)"
    by (induction S) auto
  then show ?thesis
    by (simp add: filter_vec_filter)
qed

text \<open>
  Claim C5. With the predicate that holds of every element, \<^verbatim>\<open>filter\<close> returns the
  elements of \<open>S\<close> in the order of \<open>S\<close>: a vector equal to \<open>S\<close>.
\<close>

theorem filter_always_true_is_identity: "filter_vec (\<lambda>x. True) S = S"
  by (simp add: filter_vec_filter)

text \<open>
  Claim C6. With the predicate that holds of no element, \<^verbatim>\<open>filter\<close> returns the empty
  vector.
\<close>

theorem filter_always_false_is_empty: "filter_vec (\<lambda>x. False) S = []"
  by (simp add: filter_vec_filter)

text \<open>
  Claim C10. Filtering a second time with the same predicate changes nothing: every
  element the first pass kept satisfies \<open>P\<close>, and the second pass keeps it.
\<close>

theorem filter_idempotent: "filter_vec P (filter_vec P S) = filter_vec P S"
  by (simp add: filter_vec_filter)

text \<open>
  Claim C9. \<^verbatim>\<open>filter(S, P)\<close> invokes the predicate once on each element of \<open>S\<close>, from
  the first to the last: the log of the invocations lists the offsets \<open>0, \<dots>, length S - 1\<close>
  in this order, each once, and the arguments passed are the elements of \<open>S\<close> in the order
  of \<open>S\<close>.
\<close>

theorem filter_invokes_predicate_once_per_element_in_order:
  "map fst (calls (filter_run P S)) = [0..<length S]
   \<and> map snd (calls (filter_run P S)) = S
   \<and> length (calls (filter_run P S)) = length S"
  by (simp add: filter_run_def filter_loop_calls)

section \<open>Properties of \<^verbatim>\<open>sum\<close>\<close>

lemma accumulate_foldl:
  "lst \<le> length (vec s) \<Longrightarrow>
   accumulate first lst init s =
     (foldl (+) init (take (lst - first) (drop first (vec s))), s)"
proof (induction first lst init s rule: accumulate.induct)
  case (1 first lst init s)
  show ?case
  proof (cases "first < lst")
    case True
    with "1.prems" have "first < length (vec s)" by simp
    then have step: "drop first (vec s) = vec s ! first # drop (Suc first) (vec s)"
      by (simp add: Cons_nth_drop_Suc)
    from True have len: "lst - first = Suc (lst - Suc first)" by simp
    from True "1.prems" have "accumulate (Suc first) lst (init + vec s ! first) s =
        (foldl (+) (init + vec s ! first) (take (lst - Suc first) (drop (Suc first) (vec s))), s)"
      by (rule "1.IH")
    with True show ?thesis
      by (simp add: accumulate.simps [of first lst init s] step len)
  next
    case False
    then show ?thesis by (simp add: accumulate.simps [of first lst init s])
  qed
qed

lemma sum_run_foldl: "sum_run s = (foldl (+) 0 (vec s), s)"
  by (simp add: sum_run_def accumulate_foldl)

lemma sum_vec_foldl: "sum_vec v = foldl (+) 0 v"
  by (simp add: sum_vec_def sum_run_foldl)

text \<open>
  Claim C2. \<^verbatim>\<open>sum(S)\<close> is the left fold of the addition of the element type over \<open>S\<close>,
  in the order of \<open>S\<close>, from the zero of the element type; on the empty vector it is that
  zero. No law of the addition is used: the statement holds for an addition that wraps
  around or rounds.
\<close>

theorem sum_is_left_fold_from_zero:
  "sum_vec S = foldl (+) 0 S \<and> sum_vec ([] :: 'a::{zero,plus} list) = 0"
  by (simp add: sum_vec_foldl)

section \<open>Properties of the model of \<^verbatim>\<open>double\<close>\<close>

text \<open>
  \<open>ilog2\<close> computes the binary exponent, a nonzero size converts to a nonzero double, and
  the conversion of an integer of at most 53 bits is exact.
\<close>

lemma powi_diff_nat: "(2::rat) powi (int m - int n) = 2 ^ m / 2 ^ n"
  by (simp add: power_int_diff)

lemma floorlog2_bounds_rat:
  assumes "0 < k"
  shows "(2::rat) ^ (floorlog 2 (nat k) - 1) \<le> of_int k"
    and "of_int k < (2::rat) ^ floorlog 2 (nat k)"
    and "0 < floorlog 2 (nat k)"
proof -
  have k: "rat_of_int k = of_nat (nat k)" using assms by simp
  have "2 ^ (floorlog 2 (nat k) - 1) \<le> nat k"
    using floorlog_bounds [of "nat k" 2] assms by simp
  then have "rat_of_nat (2 ^ (floorlog 2 (nat k) - 1)) \<le> of_nat (nat k)"
    by (simp only: of_nat_le_iff)
  then show "(2::rat) ^ (floorlog 2 (nat k) - 1) \<le> of_int k"
    unfolding k by simp
  have "nat k < 2 ^ floorlog 2 (nat k)"
    using floorlog_bounds [of "nat k" 2] assms by simp
  then have "rat_of_nat (nat k) < of_nat (2 ^ floorlog 2 (nat k))"
    by (simp only: of_nat_less_iff)
  then show "of_int k < (2::rat) ^ floorlog 2 (nat k)"
    unfolding k by simp
  show "0 < floorlog 2 (nat k)"
    using assms by (simp add: floorlog_def)
qed

lemma ilog2_le:
  assumes "0 < a"
  shows "2 powi (ilog2 a) \<le> a"
proof -
  obtain n d where nd: "quotient_of a = (n, d)" by (cases "quotient_of a")
  have d: "0 < d" using nd by (rule quotient_of_denom_pos)
  have a: "a = of_int n / of_int d" using nd by (rule quotient_of_div)
  have n: "0 < n" using assms d a by (simp add: zero_less_divide_iff)
  define bn where "bn = floorlog 2 (nat n)"
  define bd where "bd = floorlog 2 (nat d)"
  have n_lo: "(2::rat) ^ (bn - 1) \<le> of_int n"
    unfolding bn_def using n by (rule floorlog2_bounds_rat)
  have d_hi: "of_int d \<le> (2::rat) ^ bd"
    unfolding bd_def using floorlog2_bounds_rat(2) [OF d] by simp
  have bn_pos: "0 < bn"
    unfolding bn_def using n by (rule floorlog2_bounds_rat)
  show ?thesis
  proof (cases "2 powi (int bn - int bd) \<le> a")
    case True
    then show ?thesis by (simp add: ilog2_def nd bn_def bd_def)
  next
    case False
    have "int bn - int bd - 1 = int (bn - 1) - int bd" using bn_pos by simp
    then have "2 powi (int bn - int bd - 1) = (2::rat) ^ (bn - 1) / 2 ^ bd"
      by (simp only: powi_diff_nat)
    also have "\<dots> \<le> of_int n / 2 ^ bd"
      using n_lo by (simp add: divide_right_mono)
    also have "\<dots> \<le> of_int n / of_int d"
      using d_hi d n by (simp add: frac_le)
    finally have "2 powi (int bn - int bd - 1) \<le> a" using a by simp
    with False show ?thesis by (simp add: ilog2_def nd bn_def bd_def)
  qed
qed

lemma ilog2_gt:
  assumes "0 < a"
  shows "a < 2 powi (ilog2 a + 1)"
proof -
  obtain n d where nd: "quotient_of a = (n, d)" by (cases "quotient_of a")
  have d: "0 < d" using nd by (rule quotient_of_denom_pos)
  have a: "a = of_int n / of_int d" using nd by (rule quotient_of_div)
  have n: "0 < n" using assms d a by (simp add: zero_less_divide_iff)
  define bn where "bn = floorlog 2 (nat n)"
  define bd where "bd = floorlog 2 (nat d)"
  have d_lo: "(2::rat) ^ (bd - 1) \<le> of_int d"
    unfolding bd_def using d by (rule floorlog2_bounds_rat)
  have n_hi: "of_int n < (2::rat) ^ bn"
    unfolding bn_def using n by (rule floorlog2_bounds_rat)
  have bd_pos: "0 < bd"
    unfolding bd_def using d by (rule floorlog2_bounds_rat)
  show ?thesis
  proof (cases "2 powi (int bn - int bd) \<le> a")
    case False
    then show ?thesis by (simp add: ilog2_def nd bn_def bd_def)
  next
    case True
    have "a = of_int n / of_int d" by (rule a)
    also have "\<dots> < 2 ^ bn / of_int d"
      using n_hi d by (simp add: divide_strict_right_mono)
    also have "\<dots> \<le> 2 ^ bn / 2 ^ (bd - 1)"
      using d_lo by (simp add: frac_le)
    also have "\<dots> = 2 powi (int bn - int (bd - 1))"
      by (simp only: powi_diff_nat)
    also have "int bn - int (bd - 1) = int bn - int bd + 1" using bd_pos by simp
    finally have "a < 2 powi (int bn - int bd + 1)" .
    with True show ?thesis by (simp add: ilog2_def nd bn_def bd_def)
  qed
qed

lemma round_half_even_ge: "1 \<le> r \<Longrightarrow> 1 \<le> round_half_even r"
proof -
  assume "1 \<le> r"
  then have "1 \<le> \<lfloor>r\<rfloor>" by (simp add: le_floor_iff)
  then show ?thesis by (simp add: round_half_even_def Let_def)
qed

lemma round_double_nonzero:
  assumes "1 \<le> q"
  shows "\<not> is_zero (round_double q)"
proof -
  define e where "e = max (ilog2 q) (- 1022)"
  define u where "u = (2::rat) powi (e - 52)"
  define m where "m = round_half_even (q / u)"
  have q: "0 < q" "q \<noteq> 0" "\<bar>q\<bar> = q" using assms by simp_all
  have u_pos: "0 < u" by (simp add: u_def)
  have "u \<le> q"
  proof (cases "- 1022 \<le> ilog2 q")
    case True
    then have "e = ilog2 q" by (simp add: e_def)
    then have "u \<le> 2 powi (ilog2 q)"
      by (simp add: u_def power_int_increasing)
    also have "\<dots> \<le> q" using q(1) by (rule ilog2_le)
    finally show ?thesis .
  next
    case False
    then have "e = - 1022" by (simp add: e_def)
    then have "u \<le> 1" by (simp add: u_def)
    with assms show ?thesis by simp
  qed
  with u_pos have "1 \<le> q / u" by (simp add: le_divide_eq)
  then have m: "1 \<le> m" unfolding m_def by (rule round_half_even_ge)
  with u_pos have v: "0 < of_int m * u" by simp
  have "round_double q =
      (if 2 powi 1024 \<le> of_int m * u then PosInf else Finite (of_int m * u))"
    using q m by (simp add: round_double_def Let_def e_def u_def m_def)
  moreover have "of_int m * u \<noteq> 0" using m u_pos by simp
  ultimately show ?thesis by (simp del: mult_eq_0_iff)
qed

lemma size_to_double_nonzero: "0 < n \<Longrightarrow> \<not> is_zero (size_to_double n)"
  by (simp add: size_to_double_def round_double_nonzero)

lemma round_half_even_of_int: "round_half_even (of_int n) = n"
  by (simp add: round_half_even_def)

lemma round_double_of_int_exact:
  assumes "\<bar>k\<bar> \<le> 2 ^ 53"
  shows "round_double (of_int k) = Finite (of_int k)"
proof (cases "k = 0")
  case True
  then show ?thesis by (simp add: round_double_def)
next
  case False
  define a :: rat where "a = \<bar>of_int k\<bar>"
  define e where "e = ilog2 a"
  define u where "u = (2::rat) powi (e - 52)"
  have a_int: "a = of_int \<bar>k\<bar>" by (simp add: a_def)
  have a_ge: "1 \<le> a" using False by (simp add: a_int flip: of_int_abs)
  have a_le: "a \<le> 2 ^ 53"
  proof -
    have "rat_of_int \<bar>k\<bar> \<le> of_int (2 ^ 53)" using assms by (simp only: of_int_le_iff)
    then show ?thesis by (simp add: a_int)
  qed
  have a_pos: "0 < a" using a_ge by simp
  have lo: "2 powi e \<le> a" unfolding e_def using a_pos by (rule ilog2_le)
  have hi: "a < 2 powi (e + 1)" unfolding e_def using a_pos by (rule ilog2_gt)
  have e_ge: "0 \<le> e"
  proof (rule ccontr)
    assume "\<not> 0 \<le> e"
    then have "e + 1 \<le> 0" by simp
    then have "(2::rat) powi (e + 1) \<le> 2 powi 0" by (rule power_int_increasing) simp
    with hi a_ge show False by simp
  qed
  have e_le: "e \<le> 53"
  proof (rule ccontr)
    assume "\<not> e \<le> 53"
    then have "54 \<le> e" by simp
    then have "(2::rat) powi 54 \<le> 2 powi e" by (rule power_int_increasing) simp
    with lo a_le show False by simp
  qed
  have u_pos: "0 < u" by (simp add: u_def)
  have "\<exists>n. a / u = of_int n"
  proof (cases "e \<le> 52")
    case True
    have "a / u = a * 2 powi (52 - e)"
      by (simp add: u_def power_int_diff)
    also have "(2::rat) powi (52 - e) = 2 ^ nat (52 - e)"
      using True by (simp add: power_int_def)
    finally have "a / u = of_int (\<bar>k\<bar> * 2 ^ nat (52 - e))"
      by (simp add: a_int)
    then show ?thesis ..
  next
    case False
    with e_le have e: "e = 53" by simp
    with lo a_le have "a = 2 ^ 53" by simp
    with e have "a / u = of_int (2 ^ 52)" by (simp add: u_def)
    then show ?thesis ..
  qed
  then obtain n where n: "a / u = of_int n" ..
  with u_pos have v: "of_int n * u = a" by (simp add: field_simps)
  have n_pos: "n \<noteq> 0" using n a_pos u_pos by auto
  have m: "round_half_even (a / u) = n" by (simp add: n round_half_even_of_int)
  have no_overflow: "\<not> 2 powi 1024 \<le> a" using a_le by simp
  have e_max: "max (ilog2 a) (- 1022) = e" using e_ge by (simp add: e_def)
  have "round_double (of_int k) = Finite (if 0 < rat_of_int k then a else - a)"
    using \<open>k \<noteq> 0\<close> no_overflow n_pos
    by (simp add: round_double_def Let_def e_max m v flip: a_def u_def)
  also have "(if 0 < rat_of_int k then a else - a) = of_int k"
    by (simp add: a_def)
  finally show ?thesis .
qed

lemma int_to_double_exact: "int_to_double i = Finite (of_int (sint i))"
proof -
  have "- (2 ^ 31) \<le> sint i" "sint i < 2 ^ 31"
    using sint_ge [of i] sint_lt [of i] by simp_all
  then have "\<bar>sint i\<bar> \<le> 2 ^ 53" by simp
  then show ?thesis
    unfolding int_to_double_def by (rule round_double_of_int_exact)
qed

lemma size_to_double_exact: "n \<le> 2 ^ 53 \<Longrightarrow> size_to_double n = Finite (of_nat n)"
proof -
  assume "n \<le> 2 ^ 53"
  then have "int n \<le> int (2 ^ 53)" by (simp only: of_nat_le_iff)
  then have "\<bar>int n\<bar> \<le> 2 ^ 53" by simp
  then have "round_double (of_int (int n)) = Finite (of_int (int n))"
    by (rule round_double_of_int_exact)
  then show ?thesis by (simp add: size_to_double_def)
qed

section \<open>Properties of \<^verbatim>\<open>average\<close>\<close>

lemma average_run_frame:
  "snd (average_run to_double s) =
     (if vec s = [] then s
      else s\<lparr>divisions := divisions s @
            [(to_double (foldl (+) 0 (vec s)), size_to_double (length (vec s)))]\<rparr>)"
  by (simp add: average_run_def sum_run_foldl divide_def)

lemma average_value:
  "average to_double v =
     (if v = [] then Finite 0
      else fdiv (to_double (sum_vec v)) (size_to_double (length v)))"
  by (simp add: average_def average_run_def sum_run_foldl sum_vec_foldl divide_def)

text \<open>
  Claim C3. On the empty vector \<^verbatim>\<open>average\<close> returns \<open>+0.0\<close>. On a non-empty vector \<open>S\<close>
  it returns the quotient, in \<^verbatim>\<open>double\<close> arithmetic, of \<^verbatim>\<open>sum(S)\<close> converted to
  \<^verbatim>\<open>double\<close> by the length of \<open>S\<close> converted to \<^verbatim>\<open>double\<close>.
\<close>

theorem average_is_rounded_quotient:
  "average to_double ([] :: 'a::{zero,plus} list) = Finite 0
   \<and> (S \<noteq> [] \<longrightarrow>
        average to_double S = fdiv (to_double (sum_vec S)) (size_to_double (length S)))"
  by (simp add: average_value)

theorem average_is_rounded_quotient_witness:
  "average int_to_double ([] :: 32 word list) = Finite 0
   \<and> [7, 8 :: 32 word] \<noteq> []
   \<and> average int_to_double [7, 8 :: 32 word] =
       fdiv (int_to_double (sum_vec [7, 8])) (size_to_double (length [7, 8 :: 32 word]))"
  using average_is_rounded_quotient [of int_to_double "[7, 8]"] by simp

text \<open>
  For \<^verbatim>\<open>int\<close> elements both conversions are exact, so the average of up to \<open>2\<^sup>5\<^sup>3\<close>
  elements is the exact quotient of the sum by the length, rounded once.
\<close>

lemma average_int_correctly_rounded:
  assumes "S \<noteq> []" and "length S \<le> 2 ^ 53"
  shows "average int_to_double S =
    round_double (of_int (sint (sum_vec S)) / of_nat (length S))"
proof -
  from assms(1) have len: "0 < length S" by simp
  have "average int_to_double S =
      fdiv (Finite (of_int (sint (sum_vec S)))) (Finite (of_nat (length S)))"
    using assms by (simp add: average_value int_to_double_exact size_to_double_exact)
  also have "\<dots> = round_double (of_int (sint (sum_vec S)) / of_nat (length S))"
    using len by (simp add: fdiv_def round_double_def)
  finally show ?thesis .
qed

text \<open>
  Claim C7. \<^verbatim>\<open>average\<close> never divides by zero. The log of the divisions it executes is
  empty when \<open>S\<close> is empty, where it returns \<open>+0.0\<close> and leaves the state as it was; when
  \<open>S\<close> is not empty the log holds the one division of the converted sum by the converted
  length. No divisor in the log is a zero.
\<close>

theorem average_never_divides_by_zero:
  "divisions (snd (average_run to_double \<lparr>vec = S, divisions = []\<rparr>)) =
     (if S = [] then [] else [(to_double (sum_vec S), size_to_double (length S))])
   \<and> (\<forall>(x, y) \<in> set (divisions (snd (average_run to_double \<lparr>vec = S, divisions = []\<rparr>))).
         \<not> is_zero y)
   \<and> average_run to_double \<lparr>vec = [], divisions = []\<rparr> =
       (Finite 0, \<lparr>vec = [], divisions = []\<rparr>)"
proof -
  let ?log = "divisions (snd (average_run to_double \<lparr>vec = S, divisions = []\<rparr>))"
  have log: "?log =
      (if S = [] then [] else [(to_double (sum_vec S), size_to_double (length S))])"
    by (simp add: average_run_frame sum_vec_foldl)
  have nonzero: "\<forall>(x, y) \<in> set ?log. \<not> is_zero y"
    unfolding log by (simp add: size_to_double_nonzero)
  have empty: "average_run to_double \<lparr>vec = [], divisions = []\<rparr> =
      (Finite 0, \<lparr>vec = [], divisions = []\<rparr>)"
    by (simp add: average_run_def)
  from log nonzero empty show ?thesis by (intro conjI)
qed

theorem average_never_divides_by_zero_witness:
  "divisions (snd (average_run int_to_double \<lparr>vec = [1, 2, 3], divisions = []\<rparr>)) =
     [(int_to_double (sum_vec [1, 2, 3]), size_to_double (length [1, 2, 3 :: 32 word]))]
   \<and> \<not> is_zero (size_to_double (length [1, 2, 3 :: 32 word]))"
proof -
  let ?log = "divisions (snd (average_run int_to_double \<lparr>vec = [1, 2, 3], divisions = []\<rparr>))"
  note at_input = average_never_divides_by_zero [of int_to_double "[1, 2, 3]"]
  from at_input have log: "?log =
      [(int_to_double (sum_vec [1, 2, 3]), size_to_double (length [1, 2, 3 :: 32 word]))]"
    by simp
  from at_input have "\<forall>(x, y) \<in> set ?log. \<not> is_zero y"
    by (elim conjE)
  then have "\<not> is_zero (size_to_double (length [1, 2, 3 :: 32 word]))"
    unfolding log by simp
  with log show ?thesis by (intro conjI)
qed

section \<open>The input vector\<close>

text \<open>
  Claim C8. None of \<^verbatim>\<open>filter\<close>, \<^verbatim>\<open>sum\<close> and \<^verbatim>\<open>average\<close> changes the vector it is
  given: in the state each of them returns, the caller's vector is the vector it was
  before the call. Each operation has its own vector: \<open>S\<close>, of any element type, for
  \<^verbatim>\<open>filter\<close> with any predicate \<open>P\<close>; \<open>V\<close> for \<^verbatim>\<open>sum\<close> and \<open>W\<close> for \<^verbatim>\<open>average\<close>, of
  element types with a zero and an addition.
\<close>

theorem operations_leave_input_unchanged:
  "vec (filter_run (P :: 'a \<Rightarrow> bool) (S :: 'a list)) = S
   \<and> vec (snd (sum_run \<lparr>vec = (V :: 'b::{zero,plus} list)\<rparr>)) = V
   \<and> vec (snd (average_run (to_double :: 'c::{zero,plus} \<Rightarrow> double)
        \<lparr>vec = (W :: 'c list), divisions = []\<rparr>)) = W"
  by (simp add: filter_run_def filter_loop_vec sum_run_foldl average_run_frame)

section \<open>The sample program's values\<close>

lemma sum_numbers: "sum_vec numbers = 55"
  by (simp add: sum_vec_foldl numbers_def)

lemma filter_numbers: "filter_vec is_even numbers = [2, 4, 6, 8, 10]"
  by (simp add: filter_vec_filter numbers_def is_even_def signed_modulo_int_def)

lemma quotient_of_11_2: "quotient_of (11 / 2) = (11, 2)"
  by code_simp

lemma round_double_55: "round_double 55 = Finite 55"
  by (simp add: round_double_def ilog2_def compute_floorlog round_half_even_def Let_def)

lemma round_double_10: "round_double 10 = Finite 10"
  by (simp add: round_double_def ilog2_def compute_floorlog round_half_even_def Let_def)

lemma round_double_2: "round_double 2 = Finite 2"
  by (simp add: round_double_def ilog2_def compute_floorlog round_half_even_def Let_def)

lemma round_double_11_2: "round_double (11 / 2) = Finite (11 / 2)"
  by (simp add: round_double_def ilog2_def compute_floorlog round_half_even_def Let_def
      quotient_of_11_2)

lemma average_numbers: "average int_to_double numbers = Finite (11 / 2)"
proof -
  have "int_to_double 55 = Finite 55"
    by (simp add: int_to_double_def round_double_55)
  moreover have "size_to_double 10 = Finite 10"
    by (simp add: size_to_double_def round_double_10)
  moreover have "fdiv (Finite 55) (Finite 10) = Finite (11 / 2)"
    by (simp add: fdiv_def round_double_11_2)
  moreover have "length numbers = 10" "numbers \<noteq> []"
    by (simp_all add: numbers_def)
  ultimately show ?thesis
    by (simp add: average_value sum_numbers)
qed

lemma sum_minus3_3: "sum_vec [- 3, 3 :: 32 word] = 0"
  by (simp add: sum_vec_foldl)

lemma average_minus3_3: "average int_to_double [- 3, 3] = Finite 0"
proof -
  have "int_to_double 0 = Finite 0"
    by (simp add: int_to_double_def round_double_def)
  moreover have "size_to_double 2 = Finite 2"
    by (simp add: size_to_double_def round_double_2)
  moreover have "fdiv (Finite 0) (Finite 2) = Finite 0"
    by (simp add: fdiv_def)
  moreover have "length [- 3, 3 :: 32 word] = 2"
    by simp
  ultimately show ?thesis
    by (simp only: average_value sum_minus3_3 list.distinct if_False)
qed

lemma not_integer: "(11 / 2 :: rat) \<notin> \<int>"
proof
  assume "(11 / 2 :: rat) \<in> \<int>"
  then obtain k :: int where "(11 / 2 :: rat) = of_int k" by (auto elim: Ints_cases)
  then have "rat_of_int 11 = of_int (2 * k)" by simp
  then have "11 = 2 * k" by (simp only: of_int_eq_iff)
  then show False by presburger
qed

text \<open>
  The sample program's sums stay in the range of \<^verbatim>\<open>int\<close>: read as signed numbers,
  the partial sums the loop of \<^verbatim>\<open>std::accumulate\<close> goes through are the sums of the
  signed values of the elements.
\<close>

lemma numbers_partial_sums:
  "map (\<lambda>k. sint (sum_vec (take k numbers))) [0..<11] =
     map (\<lambda>k. sum_list (map sint (take k numbers))) [0..<11]"
  by (simp add: upt_rec numbers_def sum_vec_foldl)

lemma minus3_3_partial_sums:
  "map (\<lambda>k. sint (sum_vec (take k [- 3, 3 :: 32 word]))) [0..<3] =
     map (\<lambda>k. sum_list (map sint (take k [- 3, 3 :: 32 word]))) [0..<3]"
  by (simp add: upt_rec sum_vec_foldl)

text \<open>
  Claim C4. On \<open>[1, \<dots>, 10]\<close> the sum is \<open>55\<close>, the average is \<open>5.5\<close>, which is no
  integer, and the even elements are \<open>[2, 4, 6, 8, 10]\<close>; on \<open>[-3, 3]\<close> the sum is \<open>0\<close> and
  the average is \<open>+0.0\<close>. The elements are 32-bit \<^verbatim>\<open>int\<close>s.
\<close>

theorem sample_scenarios:
  "sum_vec numbers = 55
   \<and> average int_to_double numbers = Finite (11 / 2) \<and> (11 / 2 :: rat) \<notin> \<int>
   \<and> filter_vec is_even numbers = [2, 4, 6, 8, 10]
   \<and> sum_vec [- 3, 3 :: 32 word] = 0
   \<and> average int_to_double [- 3, 3] = Finite 0"
  by (simp only: sum_numbers average_numbers filter_numbers sum_minus3_3 average_minus3_3
      not_integer simp_thms)

end
